theory Spec2Isabelle
  imports Main "HOL-Library.AList"
begin

section \<open>Python values, errors and strings\<close>

text \<open>
  The exceptions the modelled code can raise. \<open>NotEnoughTaggersError\<close> is the class
  declared at the end of \<^verbatim>\<open>image_ref.py\<close>; \<open>ValueError\<close> is raised by a failed tuple
  unpacking, \<open>KeyError\<close> by a subscript on a missing dictionary key, \<open>AttributeError\<close> by
  an attribute read on \<^verbatim>\<open>None\<close>, \<open>ReError\<close> is \<^verbatim>\<open>re.error\<close> and \<open>URLError\<close> a failed retrieval.
\<close>

datatype error =
  NotEnoughTaggersError | ValueError | KeyError | AttributeError | ReError | URLError

text \<open>
  A tag's stored value, \<^verbatim>\<open>Union[str, bool, int]\<close> or \<^verbatim>\<open>None\<close>. A \<open>string\<close> stands for a
  Python \<^verbatim>\<open>str\<close> whose code points are all below 256, one \<open>char\<close> per code point.
\<close>

datatype tag_value = VBool bool | VInt int | VStr string | VNone

text \<open>\<^verbatim>\<open>str.lower()\<close> on code points below 256: A-Z and the Latin-1 capitals move up by 32.\<close>

definition lower_char :: "char \<Rightarrow> char" where
  "lower_char c =
     (let n = (of_char c :: nat) in
      if (65 \<le> n \<and> n \<le> 90) \<or> (192 \<le> n \<and> n \<le> 222 \<and> n \<noteq> 215)
      then char_of (n + 32) else c)"

definition lower :: "string \<Rightarrow> string" where
  "lower s = map lower_char s"

text \<open>Python's \<^verbatim>\<open>a or b\<close> on two strings: \<open>a\<close> when it is non-empty, else \<open>b\<close>.\<close>

definition str_or :: "string \<Rightarrow> string \<Rightarrow> string" where
  "str_or a b = (if a \<noteq> [] then a else b)"

text \<open>\<^verbatim>\<open>bool(s)\<close> of a string.\<close>

definition bool_of_str :: "string \<Rightarrow> bool" where
  "bool_of_str s = (s \<noteq> [])"

text \<open>\<^verbatim>\<open>re.fullmatch('\\d+', s)\<close>: below code point 256 the decimal digits are 0-9.\<close>

definition is_digit :: "char \<Rightarrow> bool" where
  "is_digit c = (48 \<le> (of_char c :: nat) \<and> (of_char c :: nat) \<le> 57)"

definition fullmatch_digits :: "string \<Rightarrow> bool" where
  "fullmatch_digits s = (s \<noteq> [] \<and> list_all is_digit s)"

text \<open>
  \<^verbatim>\<open>int(s)\<close> of a string of decimal digits. CPython (3.11, and the later releases of
  3.7 to 3.10) raises \<^verbatim>\<open>ValueError\<close> when the string has more digits than
  \<^verbatim>\<open>sys.get_int_max_str_digits()\<close>, 4300 unless it was changed.
\<close>

definition decimal_value :: "string \<Rightarrow> int" where
  "decimal_value s = foldl (\<lambda>acc c. 10 * acc + (of_char c - 48)) 0 s"

definition int_max_str_digits :: nat where
  "int_max_str_digits = 4300"

definition int_of_str :: "string \<Rightarrow> error + int" where
  "int_of_str s =
     (if length s > int_max_str_digits then Inl ValueError else Inr (decimal_value s))"

text \<open>
  The coercion inside \<^verbatim>\<open>Image.add_tag\<close>:
  \<^verbatim>\<open>
  if content.lower() == ('true' or 'false'):
      content = bool(content)
  elif re.fullmatch('\\d+', content):
      content = int(content)
  \<close>
\<close>

definition normalize :: "string \<Rightarrow> error + tag_value" where
  "normalize content =
     (if lower content = str_or ''true'' ''false'' then Inr (VBool (bool_of_str content))
      else if fullmatch_digits content then
        (case int_of_str content of Inl e \<Rightarrow> Inl e | Inr n \<Rightarrow> Inr (VInt n))
      else Inr (VStr content))"

text \<open>
  The normalization as the specification words it (section 4.1), for comparison with
  \<open>normalize\<close>: both boolean literals are recognised, case-insensitively, and every
  input has an output.
\<close>

definition normalize_spec :: "string \<Rightarrow> tag_value" where
  "normalize_spec raw =
     (if lower raw = ''true'' then VBool True
      else if lower raw = ''false'' then VBool False
      else if fullmatch_digits raw then VInt (decimal_value raw)
      else VStr raw)"

text \<open>\<^verbatim>\<open>str(v)\<close> of a stored value: \<^verbatim>\<open>'True'\<close>, \<^verbatim>\<open>'False'\<close>, the decimal digits, \<^verbatim>\<open>'None'\<close>.\<close>

fun str_nat :: "nat \<Rightarrow> string" where
  "str_nat n =
     (if n < 10 then [char_of (48 + n)]
      else str_nat (n div 10) @ [char_of (48 + n mod 10)])"

declare str_nat.simps [simp del]

definition str_int :: "int \<Rightarrow> string" where
  "str_int i = (if i < 0 then CHR ''-'' # str_nat (nat (- i)) else str_nat (nat i))"

fun str_value :: "tag_value \<Rightarrow> string" where
  "str_value (VBool b) = (if b then ''True'' else ''False'')"
| "str_value (VInt i) = str_int i"
| "str_value (VStr s) = s"
| "str_value VNone = ''None''"

fun is_str :: "tag_value \<Rightarrow> bool" where
  "is_str (VStr s) = True"
| "is_str v = False"

section \<open>Dictionaries\<close>

text \<open>
  A \<^verbatim>\<open>dict\<close> is an association list in insertion order. \<^verbatim>\<open>d[k]\<close> raises \<^verbatim>\<open>KeyError\<close> on a
  missing key; \<^verbatim>\<open>d[k] = v\<close> replaces the value in place or appends a new entry.
\<close>

definition dict_getitem :: "('k \<times> 'v) list \<Rightarrow> 'k \<Rightarrow> error + 'v" where
  "dict_getitem d k = (case map_of d k of None \<Rightarrow> Inl KeyError | Some v \<Rightarrow> Inr v)"

definition dict_setitem :: "('k \<times> 'v) list \<Rightarrow> 'k \<Rightarrow> 'v \<Rightarrow> ('k \<times> 'v) list" where
  "dict_setitem d k v = AList.update k v d"

definition keys :: "('k \<times> 'v) list \<Rightarrow> 'k list" where
  "keys d = map fst d"

section \<open>The Image class (image\_ref.py)\<close>

text \<open>
  \<^verbatim>\<open>skippers\<close> and \<^verbatim>\<open>taggers\<close> are assigned in the class body, so they are attributes of
  the class object: one set and one dictionary, reached from every instance that has no
  attribute of its own under that name. The objects live in a store, addressed by
  references, so that two names for one object see each other's writes.
  \<open>tag_dicts\<close> holds the inner dictionaries (tag to value), \<open>user_dicts\<close> the outer ones
  (user id to a reference to that user's inner dictionary), \<open>str_sets\<close> the sets of user
  ids; each kind has its own references, and \<open>next_tag_dict\<close>, \<open>next_user_dict\<close> and
  \<open>next_set\<close> are the next unused ones.
\<close>

type_synonym ref = nat
type_synonym tag_dict = "(string \<times> tag_value) list"
type_synonym user_dict = "(string \<times> ref) list"

record store =
  tag_dicts :: "ref \<Rightarrow> tag_dict"
  user_dicts :: "ref \<Rightarrow> user_dict"
  str_sets :: "ref \<Rightarrow> string set"
  next_tag_dict :: ref
  next_user_dict :: ref
  next_set :: ref
  cls_skippers :: ref
  cls_taggers :: ref

text \<open>
  An instance: the two paths set by \<^verbatim>\<open>__init__\<close>, and the instance attributes
  \<^verbatim>\<open>skippers\<close> and \<^verbatim>\<open>taggers\<close>, which exist only once \<^verbatim>\<open>save\<close> has assigned them.
\<close>

record image =
  original_size_path :: string
  small_size_path :: string
  inst_skippers :: "ref option"
  inst_taggers :: "ref option"

text \<open>The store once the class body has run: an empty set and an empty dictionary.\<close>

definition class_Image :: store where
  "class_Image =
     \<lparr>tag_dicts = (\<lambda>r. []), user_dicts = (\<lambda>r. []), str_sets = (\<lambda>r. {}),
      next_tag_dict = 0, next_user_dict = 1, next_set = 1,
      cls_skippers = 0, cls_taggers = 0\<rparr>"

text \<open>\<^verbatim>\<open>Image.__init__\<close> assigns the two paths and nothing else.\<close>

definition init_Image :: "store \<Rightarrow> string \<Rightarrow> string \<Rightarrow> store \<times> image" where
  "init_Image s original small =
     (s, \<lparr>original_size_path = original, small_size_path = small,
          inst_skippers = None, inst_taggers = None\<rparr>)"

text \<open>\<^verbatim>\<open>self.skippers\<close> and \<^verbatim>\<open>self.taggers\<close>: the instance attribute if set, else the class's.\<close>

definition skippers_ref :: "store \<Rightarrow> image \<Rightarrow> ref" where
  "skippers_ref s i = (case inst_skippers i of Some r \<Rightarrow> r | None \<Rightarrow> cls_skippers s)"

definition taggers_ref :: "store \<Rightarrow> image \<Rightarrow> ref" where
  "taggers_ref s i = (case inst_taggers i of Some r \<Rightarrow> r | None \<Rightarrow> cls_taggers s)"

definition skippers :: "store \<Rightarrow> image \<Rightarrow> string set" where
  "skippers s i = str_sets s (skippers_ref s i)"

definition taggers :: "store \<Rightarrow> image \<Rightarrow> user_dict" where
  "taggers s i = user_dicts s (taggers_ref s i)"

definition get_taggers :: "store \<Rightarrow> image \<Rightarrow> string list" where
  "get_taggers s i = keys (taggers s i)"

text \<open>
  \<^verbatim>\<open>
  if user_id not in self.get_taggers():
      self.taggers[user_id] = dict()
  \<close>
  The new dictionary is a fresh object of the store.
\<close>

definition ensure_user :: "store \<Rightarrow> image \<Rightarrow> string \<Rightarrow> store" where
  "ensure_user s i user_id =
     (if user_id \<notin> set (get_taggers s i) then
        (let r = next_tag_dict s in
         s\<lparr>tag_dicts := (tag_dicts s)(r := []),
           user_dicts := (user_dicts s)(taggers_ref s i := dict_setitem (taggers s i) user_id r),
           next_tag_dict := Suc r\<rparr>)
      else s)"

text \<open>\<^verbatim>\<open>self.taggers[user_id][tag] = v\<close>\<close>

definition set_user_tag :: "store \<Rightarrow> image \<Rightarrow> string \<Rightarrow> string \<Rightarrow> tag_value \<Rightarrow> error + store" where
  "set_user_tag s i user_id tag v =
     (case dict_getitem (taggers s i) user_id of
        Inl e \<Rightarrow> Inl e
      | Inr r \<Rightarrow> Inr (s\<lparr>tag_dicts := (tag_dicts s)(r := dict_setitem (tag_dicts s r) tag v)\<rparr>))"

text \<open>The read \<^verbatim>\<open>self.taggers[user_id][tag]\<close>\<close>

definition read_tag :: "store \<Rightarrow> image \<Rightarrow> string \<Rightarrow> string \<Rightarrow> error + tag_value" where
  "read_tag s i user_id tag =
     (case dict_getitem (taggers s i) user_id of
        Inl e \<Rightarrow> Inl e
      | Inr r \<Rightarrow> dict_getitem (tag_dicts s r) tag)"

text \<open>
  \<^verbatim>\<open>add_tag\<close> first makes sure the user has a dictionary, then coerces the content, then
  stores it. It returns its outcome together with the store it leaves: when the coercion
  raises, the user's dictionary has been created and nothing has been stored in it.
\<close>

definition add_tag ::
  "store \<Rightarrow> image \<Rightarrow> string \<Rightarrow> string \<Rightarrow> string \<Rightarrow> (error + unit) \<times> store"
where
  "add_tag s i user_id tag content =
     (let s1 = ensure_user s i user_id in
      case normalize content of
        Inl e \<Rightarrow> (Inl e, s1)
      | Inr v \<Rightarrow>
          (case set_user_tag s1 i user_id tag v of
             Inl e \<Rightarrow> (Inl e, s1)
           | Inr s2 \<Rightarrow> (Inr (), s2)))"

definition remove_tag :: "store \<Rightarrow> image \<Rightarrow> string \<Rightarrow> string \<Rightarrow> error + store" where
  "remove_tag s i user_id tag =
     set_user_tag (ensure_user s i user_id) i user_id tag VNone"


text \<open>
  \<^verbatim>\<open>
  self.skippers = self.skippers.copy()
  self.taggers = self.taggers.copy()
  return self
  \<close>
  \<^verbatim>\<open>copy()\<close> makes a new set and a new outer dictionary with the same entries: the outer
  dictionary's values are the same references as before.
\<close>

definition save :: "store \<Rightarrow> image \<Rightarrow> store \<times> image" where
  "save s i =
     (let rs = next_set s;
          s1 = s\<lparr>str_sets := (str_sets s)(rs := skippers s i), next_set := Suc rs\<rparr>;
          i1 = i\<lparr>inst_skippers := Some rs\<rparr>;
          rt = next_user_dict s1;
          s2 = s1\<lparr>user_dicts := (user_dicts s1)(rt := taggers s1 i1),
                 next_user_dict := Suc rt\<rparr>;
          i2 = i1\<lparr>inst_taggers := Some rt\<rparr>
      in (s2, i2))"

subsection \<open>The summary and the consensus check\<close>

type_synonym tag_totals = "(string \<times> (string \<times> int) list) list"

text \<open>
  \<^verbatim>\<open>for tag, value in self.taggers[user_id]\<close> iterates the inner dictionary itself, that
  is its keys, and unpacks each key, a string, into two names: a key of exactly two
  characters gives two one-character strings, any other key raises \<^verbatim>\<open>ValueError\<close>.
\<close>

fun unpack2 :: "string \<Rightarrow> error + (string \<times> string)" where
  "unpack2 [a, b] = Inr ([a], [b])"
| "unpack2 k = Inl ValueError"

text \<open>
  The body of the inner loop:
  \<^verbatim>\<open>
  if type(value) is not str:
      if tag_totals[tag] is None:
          tag_totals[tag] = dict()
      if tag_totals[tag][str(value)] is None:
          tag_totals[tag][str(value)] = 0
      else:
          tag_totals[tag][str(value)] += 1
  \<close>
  Both subscripts raise \<^verbatim>\<open>KeyError\<close> on a missing key; a value that is found is a
  dictionary, respectively a number, never \<^verbatim>\<open>None\<close>, so only the increment remains.
\<close>

definition count_value :: "tag_totals \<Rightarrow> string \<Rightarrow> tag_value \<Rightarrow> error + tag_totals" where
  "count_value tag_totals tag v =
     (if \<not> is_str v then
        (case dict_getitem tag_totals tag of
           Inl e \<Rightarrow> Inl e
         | Inr d \<Rightarrow>
             (case dict_getitem d (str_value v) of
                Inl e \<Rightarrow> Inl e
              | Inr n \<Rightarrow> Inr (dict_setitem tag_totals tag (dict_setitem d (str_value v) (n + 1)))))
      else Inr tag_totals)"

fun sum_inner :: "tag_totals \<Rightarrow> string list \<Rightarrow> error + tag_totals" where
  "sum_inner tag_totals [] = Inr tag_totals"
| "sum_inner tag_totals (k # ks) =
     (case unpack2 k of
        Inl e \<Rightarrow> Inl e
      | Inr (tag, v) \<Rightarrow>
          (case count_value tag_totals tag (VStr v) of
             Inl e \<Rightarrow> Inl e
           | Inr tag_totals' \<Rightarrow> sum_inner tag_totals' ks))"

fun sum_users :: "store \<Rightarrow> user_dict \<Rightarrow> tag_totals \<Rightarrow> string list \<Rightarrow> error + tag_totals" where
  "sum_users s td tag_totals [] = Inr tag_totals"
| "sum_users s td tag_totals (user_id # us) =
     (case dict_getitem td user_id of
        Inl e \<Rightarrow> Inl e
      | Inr r \<Rightarrow>
          (case sum_inner tag_totals (keys (tag_dicts s r)) of
             Inl e \<Rightarrow> Inl e
           | Inr tag_totals' \<Rightarrow> sum_users s td tag_totals' us))"

definition sum_tag_values_by_users :: "store \<Rightarrow> image \<Rightarrow> error + tag_totals" where
  "sum_tag_values_by_users s i = sum_users s (taggers s i) [] (get_taggers s i)"

text \<open>
  \<^verbatim>\<open>
  for tag in tag_totals:
      if len(tag_totals[tag].keys()) > 2:
          return False
  return True
  \<close>
\<close>

fun agree_loop :: "tag_totals \<Rightarrow> string list \<Rightarrow> error + bool" where
  "agree_loop tag_totals [] = Inr True"
| "agree_loop tag_totals (tag # tags) =
     (case dict_getitem tag_totals tag of
        Inl e \<Rightarrow> Inl e
      | Inr d \<Rightarrow> if length (keys d) > 2 then Inr False else agree_loop tag_totals tags)"

text \<open>
  \<^verbatim>\<open>all_user_tags_equal\<close> returns its result, or the exception raised, together with
  the store it leaves behind.
\<close>

definition all_user_tags_equal :: "store \<Rightarrow> image \<Rightarrow> (error + bool) \<times> store" where
  "all_user_tags_equal s i =
     (if length (get_taggers s i) < 2 then (Inl NotEnoughTaggersError, s)
      else (case sum_tag_values_by_users s i of
              Inl e \<Rightarrow> (Inl e, s)
            | Inr tag_totals \<Rightarrow> (agree_loop tag_totals (keys tag_totals), s)))"

text \<open>Every tag name of every tagger has exactly two characters.\<close>

definition tag_names_unpack :: "store \<Rightarrow> image \<Rightarrow> bool" where
  "tag_names_unpack s i =
     list_all (\<lambda>u. case dict_getitem (taggers s i) u of Inl e \<Rightarrow> False
                    | Inr r \<Rightarrow> list_all (\<lambda>k. length k = 2) (keys (tag_dicts s r)))
       (get_taggers s i)"

text \<open>
  Well-formed stores and images: every reference in use is below the next unused one of
  its kind.
\<close>

definition image_ok :: "store \<Rightarrow> image \<Rightarrow> bool" where
  "image_ok s i = (taggers_ref s i < next_user_dict s \<and> skippers_ref s i < next_set s)"

definition store_ok :: "store \<Rightarrow> bool" where
  "store_ok s =
     (cls_taggers s < next_user_dict s \<and> cls_skippers s < next_set s \<and>
      list_all (\<lambda>r. list_all (\<lambda>(u, r'). r' < next_tag_dict s) (user_dicts s r))
        [0..<next_user_dict s])"

text \<open>Sequencing of calls: an exception ends the sequence.\<close>

definition then_do :: "error + 'a \<Rightarrow> ('a \<Rightarrow> error + 'b) \<Rightarrow> error + 'b" where
  "then_do m f = (case m of Inl e \<Rightarrow> Inl e | Inr x \<Rightarrow> f x)"

text \<open>The store a call leaves when it returns, the exception when it raises.\<close>

definition returned :: "(error + unit) \<times> store \<Rightarrow> error + store" where
  "returned r = (case r of (Inl e, s) \<Rightarrow> Inl e | (Inr u, s) \<Rightarrow> Inr s)"

text \<open>Two images as the constructor returns them.\<close>

definition new_image :: image where
  "new_image = snd (init_Image class_Image ''a.jpg'' ''a_small.jpg'')"


text \<open>A string of 4301 digits.\<close>

definition long_digits :: string where
  "long_digits = replicate 4301 (CHR ''1'')"

text \<open>
  The store after user A tagged \<open>new_image\<close> with "ok" = "true" and user B with
  "ok" = "7" (lemma \<open>store_AB_reached\<close>).
\<close>

definition store_AB :: store where
  "store_AB =
     \<lparr>tag_dicts = (\<lambda>r. [])(0 := [(''ok'', VBool True)], 1 := [(''ok'', VInt 7)]),
      user_dicts = (\<lambda>r. [])(0 := [(''A'', 0), (''B'', 1)]),
      str_sets = (\<lambda>r. {}), next_tag_dict = 2, next_user_dict = 1, next_set = 1,
      cls_skippers = 0, cls_taggers = 0\<rparr>"

text \<open>
  The store after user A tagged \<open>new_image\<close> with "ok" = "1" (lemma \<open>store_A1_reached\<close>);
  the store and the image after \<^verbatim>\<open>save\<close> was then called on \<open>new_image\<close>; and that
  store with user A's tag "ok" set to 2.
\<close>

definition store_A1 :: store where
  "store_A1 =
     \<lparr>tag_dicts = (\<lambda>r. [])(0 := [(''ok'', VInt 1)]),
      user_dicts = (\<lambda>r. [])(0 := [(''A'', 0)]),
      str_sets = (\<lambda>r. {}), next_tag_dict = 1, next_user_dict = 1, next_set = 1,
      cls_skippers = 0, cls_taggers = 0\<rparr>"

definition saved_store :: store where
  "saved_store = fst (save store_A1 new_image)"

definition saved_image :: image where
  "saved_image = snd (save store_A1 new_image)"

definition store_A2 :: store where
  "store_A2 = saved_store\<lparr>tag_dicts := (tag_dicts saved_store)(0 := [(''ok'', VInt 2)])\<rparr>"

section \<open>The catalog listing (ConnectionHandler.py)\<close>

text \<open>
  Modelled from the spec: the class \<^verbatim>\<open>Storm\<close> (\<^verbatim>\<open>Storm.py\<close> is not among the sources), an
  item that carries a reference, an identifier, a display name and a year, the four
  arguments of its constructor. Python's \<^verbatim>\<open>re\<close> module is a
  parameter: \<open>re_compile\<close> is \<^verbatim>\<open>re.compile(pattern, re.IGNORECASE)\<close>, which raises
  \<^verbatim>\<open>re.error\<close> on a malformed pattern; \<open>re_search p s\<close> tells whether \<^verbatim>\<open>re.search(p, s)\<close>
  finds a match; \<open>re_findall_index text\<close> is
  \<^verbatim>\<open>re.findall(URL_STORMS_REGEX_PATTERN_INDEX, text)\<close>, a list of 4-tuples.
\<close>

record storm =
  storm_url :: string
  storm_id :: string
  storm_name :: string
  storm_year :: string

record 'p re_module =
  re_compile :: "string \<Rightarrow> error + 'p"
  re_search :: "'p \<Rightarrow> string \<Rightarrow> bool"
  re_findall_index :: "string \<Rightarrow> (string \<times> string \<times> string \<times> string) list"

text \<open>
  The handler. \<open>response_text\<close> is \<^verbatim>\<open>self.r.text\<close>, or \<open>None\<close> when
  \<^verbatim>\<open>get_http_response\<close> returned \<^verbatim>\<open>None\<close>. \<open>generate_calls\<close> is not a field of the
  source: it counts the calls of \<^verbatim>\<open>generate_storm_list\<close>, so that a theorem can say how
  often the catalog was resolved.
\<close>

record handler =
  response_text :: "string option"
  storm_list :: "storm list"
  storm_list_last_pattern :: "string option"
  generate_calls :: nat

text \<open>
  The loop of \<^verbatim>\<open>generate_storm_list\<close>:
  \<^verbatim>\<open>
  for storm_url, storm_id, storm_name, storm_year in re.findall(...):
      if re.search(search_re, storm_id) or re.search(search_re, storm_name) \
              or re.search(search_re, storm_year):
          self.storm_list.append(Storm(storm_url, storm_id, storm_name, storm_year))
  \<close>
\<close>

fun collect_storms ::
  "'p re_module \<Rightarrow> 'p \<Rightarrow> storm list \<Rightarrow> (string \<times> string \<times> string \<times> string) list \<Rightarrow> storm list"
where
  "collect_storms re p acc [] = acc"
| "collect_storms re p acc ((url, sid, name, year) # rest) =
     collect_storms re p
       (if re_search re p sid \<or> re_search re p name \<or> re_search re p year
        then acc @ [\<lparr>storm_url = url, storm_id = sid, storm_name = name, storm_year = year\<rparr>]
        else acc)
       rest"

text \<open>
  \<^verbatim>\<open>generate_storm_list\<close> clears the list and records the pattern before it compiles
  the pattern, so both assignments survive an exception.
\<close>

definition generate_storm_list ::
  "'p re_module \<Rightarrow> handler \<Rightarrow> string \<Rightarrow> (error + unit) \<times> handler"
where
  "generate_storm_list re h search_re =
     (let h1 = h\<lparr>storm_list := [], storm_list_last_pattern := Some search_re,
                 generate_calls := Suc (generate_calls h)\<rparr>
      in case re_compile re search_re of
           Inl e \<Rightarrow> (Inl e, h1)
         | Inr p \<Rightarrow>
             (case response_text h1 of
                None \<Rightarrow> (Inl AttributeError, h1)
              | Some text \<Rightarrow>
                  (Inr (), h1\<lparr>storm_list := collect_storms re p [] (re_findall_index re text)\<rparr>)))"

text \<open>
  \<^verbatim>\<open>
  if search_re != self.storm_list_last_pattern:
      self.generate_storm_list(search_re)
  return self.storm_list
  \<close>
\<close>

definition get_storm_list ::
  "'p re_module \<Rightarrow> handler \<Rightarrow> string \<Rightarrow> (error + storm list) \<times> handler"
where
  "get_storm_list re h search_re =
     (if Some search_re \<noteq> storm_list_last_pattern h then
        (case generate_storm_list re h search_re of
           (Inl e, h') \<Rightarrow> (Inl e, h')
         | (Inr u, h') \<Rightarrow> (Inr (storm_list h'), h'))
      else (Inr (storm_list h), h))"

text \<open>
  \<^verbatim>\<open>ConnectionHandler.__init__\<close>: the class attributes are an empty list and \<^verbatim>\<open>None\<close>;
  the constructor stores the response and generates the list for the pattern \<^verbatim>\<open>'.*'\<close>.
\<close>

definition init_ConnectionHandler ::
  "'p re_module \<Rightarrow> string option \<Rightarrow> (error + unit) \<times> handler"
where
  "init_ConnectionHandler re resp =
     generate_storm_list re
       \<lparr>response_text = resp, storm_list = [], storm_list_last_pattern = None,
        generate_calls = 0\<rparr> ''.*''"

text \<open>A small regular-expression module for examples: a pattern matches the equal string.\<close>

definition toy_re :: "string re_module" where
  "toy_re =
     \<lparr>re_compile = (\<lambda>p. if p = ''('' then Inl ReError else Inr p),
      re_search = (\<lambda>p s. p = ''.*'' \<or> p = s),
      re_findall_index =
        (\<lambda>text. [(''u1'', ''florence'', ''Hurricane Florence'', ''2018''),
                  (''u2'', ''dorian'', ''Hurricane Dorian'', ''2019'')])\<rparr>"

text \<open>A handler as the constructor leaves it, over \<open>toy_re\<close>.\<close>

definition handler0 :: handler where
  "handler0 = snd (init_ConnectionHandler toy_re (Some ''<html>''))"

section \<open>The archive download (Tar.py)\<close>

record tar =
  tar_date :: string
  tar_url :: string
  tar_label :: string
  tar_file_name :: string
  tar_file_path :: "string option"

text \<open>
  What \<^verbatim>\<open>download_url\<close> can touch: the regular files on disk, by path, and what was
  printed. \<^verbatim>\<open>urllib.request.urlretrieve(url, filename=...)\<close> is a parameter: it maps
  the world, the url and the file name to its outcome and the world it leaves. The
  progress bar around it only displays.
\<close>

record world =
  files :: "string \<Rightarrow> string option"
  printed :: "string list"

type_synonym retriever = "world \<Rightarrow> string \<Rightarrow> string \<Rightarrow> (error + unit) \<times> world"

text \<open>
  \<^verbatim>\<open>
  self.tar_file_path = output_file_dir_path + str(self.tar_file_name) + '.tar'
  if not overwrite:
      if os.path.isfile(self.tar_file_path):
          print('A file at ' + self.tar_file_path + ' already exists')
      else:
          with ProgressBar(...) as t:
              urllib.request.urlretrieve(self.tar_url, filename=self.tar_file_path, ...)
  \<close>
\<close>

definition download_url ::
  "retriever \<Rightarrow> world \<Rightarrow> tar \<Rightarrow> string \<Rightarrow> bool \<Rightarrow> (error + unit) \<times> world \<times> tar"
where
  "download_url urlretrieve w t output_file_dir_path overwrite =
     (let path = output_file_dir_path @ tar_file_name t @ ''.tar'';
          t1 = t\<lparr>tar_file_path := Some path\<rparr>
      in if \<not> overwrite then
           (if files w path \<noteq> None then
              (Inr (), w\<lparr>printed := printed w @ [''A file at '' @ path @ '' already exists'']\<rparr>, t1)
            else
              (case urlretrieve w (tar_url t) path of (res, w') \<Rightarrow> (res, w', t1)))
         else (Inr (), w, t1))"

text \<open>A retriever for examples: it writes the url's text to the file.\<close>

definition toy_retrieve :: retriever where
  "toy_retrieve w url filename = (Inr (), w\<lparr>files := (files w)(filename := Some url)\<rparr>)"

text \<open>A world with one cached archive, and a Tar as its constructor leaves it.\<close>

definition world0 :: world where
  "world0 = \<lparr>files = (\<lambda>p. None)(''cache/a.tar'' := Some ''old''), printed = []\<rparr>"

definition tar0 :: tar where
  "tar0 = \<lparr>tar_date = ''Unknown'', tar_url = ''https://host/x/a.tar'', tar_label = ''Unknown'',
            tar_file_name = ''a'', tar_file_path = None\<rparr>"

section \<open>Properties of dictionaries\<close>

lemma dict_getitem_setitem_same [simp]: "dict_getitem (dict_setitem d k v) k = Inr v"
  by (simp add: dict_getitem_def dict_setitem_def update_conv')

lemma dict_getitem_setitem_other:
  "k' \<noteq> k \<Longrightarrow> dict_getitem (dict_setitem d k v) k' = dict_getitem d k'"
  by (simp add: dict_getitem_def dict_setitem_def update_conv')

lemma keys_setitem: "set (keys (dict_setitem d k v)) = insert k (set (keys d))"
  by (simp add: keys_def dict_setitem_def dom_update)

lemma dict_getitem_in_keys: "k \<in> set (keys d) \<Longrightarrow> \<exists>v. dict_getitem d k = Inr v"
  by (cases "map_of d k") (auto simp: dict_getitem_def keys_def map_of_eq_None_iff)

lemma dict_setitem_twice: "dict_setitem (dict_setitem d k v) k v = dict_setitem d k v"
  by (simp add: dict_setitem_def update_last)

section \<open>Properties of the normalization\<close>

lemma lower_true_length: "lower content = ''true'' \<Longrightarrow> length content = 4"
proof -
  assume "lower content = ''true''"
  then have "length (map lower_char content) = length ''true''" by (simp add: lower_def)
  then show ?thesis by simp
qed

lemma lower_digit: "is_digit c \<Longrightarrow> lower_char c = c"
  by (simp add: is_digit_def lower_char_def)

lemma lower_digits: "list_all is_digit content \<Longrightarrow> lower content = content"
  by (induction content) (simp_all add: lower_def lower_digit)

lemma digits_not_true: "fullmatch_digits content \<Longrightarrow> lower content \<noteq> ''true''"
proof
  assume d: "fullmatch_digits content" and l: "lower content = ''true''"
  then have "content = ''true''" by (simp add: fullmatch_digits_def lower_digits)
  with d show False by (simp add: fullmatch_digits_def is_digit_def)
qed

lemma normalize_true: "lower content = ''true'' \<Longrightarrow> normalize content = Inr (VBool True)"
  by (auto simp: normalize_def str_or_def bool_of_str_def lower_def)

lemma normalize_digits:
  "fullmatch_digits content \<Longrightarrow> length content \<le> int_max_str_digits \<Longrightarrow>
     normalize content = Inr (VInt (decimal_value content))"
  using digits_not_true [of content]
  by (simp add: normalize_def str_or_def int_of_str_def)

lemma normalize_digits_long:
  "fullmatch_digits content \<Longrightarrow> int_max_str_digits < length content \<Longrightarrow>
     normalize content = Inl ValueError"
  using digits_not_true [of content]
  by (simp add: normalize_def str_or_def int_of_str_def)

lemma normalize_other:
  "\<not> fullmatch_digits content \<Longrightarrow> lower content \<noteq> ''true'' \<Longrightarrow>
     normalize content = Inr (VStr content)"
  by (simp add: normalize_def str_or_def)

lemma normalize_raises_ValueError: "normalize content = Inl e \<Longrightarrow> e = ValueError"
  by (auto simp: normalize_def int_of_str_def split: if_splits)

lemma normalize_examples:
  "normalize ''true'' = Inr (VBool True)" "normalize ''7'' = Inr (VInt 7)"
  "normalize ''1'' = Inr (VInt 1)" "normalize ''2'' = Inr (VInt 2)"
  "normalize ''false'' = Inr (VStr ''false'')"
  by code_simp+

text \<open>A string of 4301 digits makes the coercion raise.\<close>

lemma normalize_long_digits: "normalize long_digits = Inl ValueError"
  by (rule normalize_digits_long)
     (simp_all add: long_digits_def fullmatch_digits_def is_digit_def int_max_str_digits_def
        list_all_iff)

text \<open>
  C2. The specification's normalization maps a string equal to "false", case-insensitively,
  to the boolean false. The code compares with \<^verbatim>\<open>('true' or 'false')\<close>, which is
  \<^verbatim>\<open>'true'\<close>: the string "false" is neither a boolean literal nor a number for it, and
  stays text.
\<close>

theorem normalize_false_stays_text:
  "normalize ''false'' = Inr (VStr ''false'') \<and> normalize_spec ''false'' = VBool False"
  by code_simp

text \<open>
  The two normalizations differ on exactly the spellings of "false" and the digit strings
  that are too long for \<^verbatim>\<open>int\<close>.
\<close>

lemma f_not_digit: "\<not> is_digit (CHR ''f'')"
  by (simp add: is_digit_def)

lemma lower_false_not_digits: "lower c = ''false'' \<Longrightarrow> \<not> fullmatch_digits c"
proof
  assume l: "lower c = ''false''" and d: "fullmatch_digits c"
  then obtain x xs where c: "c = x # xs" by (cases c) (auto simp: lower_def)
  with l have "lower_char x = CHR ''f''" by (simp add: lower_def)
  moreover from d c have "is_digit x" by (simp add: fullmatch_digits_def)
  ultimately show False using lower_digit f_not_digit by metis
qed

lemma normalize_spec_iff:
  "normalize c = Inr (normalize_spec c) \<longleftrightarrow>
     lower c \<noteq> ''false'' \<and> (fullmatch_digits c \<longrightarrow> length c \<le> int_max_str_digits)"
proof (cases "lower c = ''false''")
  case True
  then have "normalize c = Inr (VStr c)"
    using lower_false_not_digits by (simp add: normalize_def str_or_def)
  moreover have "normalize_spec c = VBool False"
    using True by (simp add: normalize_spec_def)
  ultimately show ?thesis using True by simp
next
  case False
  show ?thesis
  proof (cases "lower c = ''true''")
    case True
    then have "length c = 4" by (rule lower_true_length)
    then show ?thesis
      using True False
      by (simp add: normalize_true normalize_spec_def int_max_str_digits_def)
  next
    case nt: False
    then show ?thesis
      using False
      by (auto simp: normalize_def normalize_spec_def str_or_def int_of_str_def)
  qed
qed

section \<open>Properties of the summary and the consensus check\<close>

lemma count_value_str: "count_value tt tag (VStr v) = Inr tt"
  by (simp add: count_value_def)

text \<open>
  The body of the loop skips a string, and on any other value it raises \<^verbatim>\<open>KeyError\<close>
  as long as the totals are empty: nothing ever enters them.
\<close>

lemma count_value_empty:
  "count_value [] tag v = (if is_str v then Inr [] else Inl KeyError)"
  by (simp add: count_value_def dict_getitem_def)

lemma sum_inner_cases: "sum_inner tt ks = Inr tt \<or> sum_inner tt ks = Inl ValueError"
proof (induction ks)
  case Nil
  show ?case by simp
next
  case (Cons k ks)
  show ?case
    using Cons.IH by (cases k rule: unpack2.cases) (simp_all add: count_value_str)
qed

lemma sum_users_cases:
  "sum_users s td tt us = Inr tt \<or> sum_users s td tt us = Inl ValueError
     \<or> sum_users s td tt us = Inl KeyError"
proof (induction us)
  case Nil
  show ?case by simp
next
  case (Cons u us)
  show ?case
  proof (cases "dict_getitem td u")
    case (Inl e)
    then show ?thesis by (auto simp: dict_getitem_def split: option.splits)
  next
    case (Inr r)
    then show ?thesis
      using Cons.IH sum_inner_cases [of tt "keys (tag_dicts s r)"] by auto
  qed
qed

text \<open>Whenever the summary is returned, it is empty.\<close>

lemma sum_tag_values_by_users_empty:
  "sum_tag_values_by_users s i = Inr tt \<Longrightarrow> tt = []"
  using sum_users_cases [of s "taggers s i" "[]" "get_taggers s i"]
  by (auto simp: sum_tag_values_by_users_def)

text \<open>The consensus check never answers \<^verbatim>\<open>False\<close>.\<close>

lemma all_user_tags_equal_never_False: "fst (all_user_tags_equal s i) \<noteq> Inr False"
  using sum_users_cases [of s "taggers s i" "[]" "get_taggers s i"]
  by (auto simp: all_user_tags_equal_def sum_tag_values_by_users_def keys_def)

text \<open>
  What the two functions compute: the summary is empty if every tag name of every tagger
  has exactly two characters, and \<^verbatim>\<open>ValueError\<close> otherwise; the consensus check, with
  two or more taggers, is \<^verbatim>\<open>True\<close> or \<^verbatim>\<open>ValueError\<close> accordingly.
\<close>

lemma unpack2_length: "unpack2 k = Inl ValueError \<longleftrightarrow> length k \<noteq> 2"
  by (cases k rule: unpack2.cases) simp_all

lemma sum_inner_eq:
  "sum_inner tt ks = (if list_all (\<lambda>k. length k = 2) ks then Inr tt else Inl ValueError)"
proof (induction ks)
  case Nil
  show ?case by simp
next
  case (Cons k ks)
  show ?case
    using Cons.IH by (cases k rule: unpack2.cases) (simp_all add: count_value_str)
qed

lemma sum_users_eq:
  assumes "set us \<subseteq> set (keys td)"
  shows "sum_users s td tt us =
     (if list_all (\<lambda>u. case dict_getitem td u of Inl e \<Rightarrow> False
                         | Inr r \<Rightarrow> list_all (\<lambda>k. length k = 2) (keys (tag_dicts s r))) us
      then Inr tt else Inl ValueError)"
  using assms
proof (induction us)
  case Nil
  show ?case by simp
next
  case (Cons u us)
  then obtain r where r: "dict_getitem td u = Inr r"
    using dict_getitem_in_keys [of u td] by auto
  have ih: "sum_users s td tt us =
     (if list_all (\<lambda>u. case dict_getitem td u of Inl e \<Rightarrow> False
                         | Inr r \<Rightarrow> list_all (\<lambda>k. length k = 2) (keys (tag_dicts s r))) us
      then Inr tt else Inl ValueError)"
    using Cons by simp
  show ?case by (simp add: r sum_inner_eq ih)
qed

lemma sum_tag_values_by_users_eq:
  "sum_tag_values_by_users s i = (if tag_names_unpack s i then Inr [] else Inl ValueError)"
  using sum_users_eq [of "get_taggers s i" "taggers s i" s "[]"]
  by (simp add: sum_tag_values_by_users_def tag_names_unpack_def get_taggers_def)

lemma all_user_tags_equal_eq:
  "fst (all_user_tags_equal s i) =
     (if length (get_taggers s i) < 2 then Inl NotEnoughTaggersError
      else if tag_names_unpack s i then Inr True else Inl ValueError)"
  by (simp add: all_user_tags_equal_def sum_tag_values_by_users_eq keys_def)

text \<open>
  C1. User A sets "damage" to "true" and user B sets "damage" to "false"; the claim is that
  \<^verbatim>\<open>all_user_tags_equal\<close> then returns false. In the code the call raises
  \<^verbatim>\<open>ValueError\<close>: the summary unpacks the tag name "damage" into two names.
\<close>

theorem disagreement_scenario_raises:
  "then_do (returned (add_tag class_Image new_image ''A'' ''damage'' ''true'')) (\<lambda>s1.
     then_do (returned (add_tag s1 new_image ''B'' ''damage'' ''false'')) (\<lambda>s2.
       Inr (fst (all_user_tags_equal s2 new_image)))) = Inr (Inl ValueError)"
  by code_simp

text \<open>
  C3. The claim is that the summary counts, for each tag and each non-text value, the
  taggers whose current value it is. In the code one tagger with "damage" true makes the
  summary raise \<^verbatim>\<open>ValueError\<close>, and one tagger with the two-character tag "ok" true
  gives the empty summary.
\<close>

theorem summary_raises_or_is_empty:
  "then_do (returned (add_tag class_Image new_image ''A'' ''damage'' ''true''))
       (\<lambda>s. sum_tag_values_by_users s new_image) = Inl ValueError
   \<and> then_do (returned (add_tag class_Image new_image ''A'' ''ok'' ''true''))
       (\<lambda>s. then_do (read_tag s new_image ''A'' ''ok'') (\<lambda>v.
          then_do (sum_tag_values_by_users s new_image) (\<lambda>tt. Inr (v, tt))))
     = Inr (VBool True, [])"
  by code_simp

text \<open>
  C4. With fewer than two taggers \<^verbatim>\<open>all_user_tags_equal\<close> raises
  \<^verbatim>\<open>NotEnoughTaggersError\<close> and the store is as before; with two or more it does not
  raise that error, and the store is as before.
\<close>

theorem not_enough_taggers:
  "(length (get_taggers s i) < 2 \<longrightarrow>
      all_user_tags_equal s i = (Inl NotEnoughTaggersError, s)) \<and>
   (2 \<le> length (get_taggers s i) \<longrightarrow>
      fst (all_user_tags_equal s i) \<noteq> Inl NotEnoughTaggersError \<and>
      snd (all_user_tags_equal s i) = s)"
  using sum_users_cases [of s "taggers s i" "[]" "get_taggers s i"]
  by (auto simp: all_user_tags_equal_def sum_tag_values_by_users_def keys_def split: sum.splits)

lemma store_AB_reached:
  "then_do (returned (add_tag class_Image new_image ''A'' ''ok'' ''true''))
     (\<lambda>s. returned (add_tag s new_image ''B'' ''ok'' ''7'')) = Inr store_AB"
  by (simp add: then_do_def returned_def add_tag_def set_user_tag_def ensure_user_def get_taggers_def
        taggers_def taggers_ref_def new_image_def init_Image_def class_Image_def keys_def
        dict_getitem_def dict_setitem_def store_AB_def normalize_examples fun_upd_twist)

theorem not_enough_taggers_witness:
  "length (get_taggers class_Image new_image) < 2 \<and>
   all_user_tags_equal class_Image new_image = (Inl NotEnoughTaggersError, class_Image) \<and>
   2 \<le> length (get_taggers store_AB new_image) \<and>
   fst (all_user_tags_equal store_AB new_image) \<noteq> Inl NotEnoughTaggersError \<and>
   snd (all_user_tags_equal store_AB new_image) = store_AB"
  using not_enough_taggers [of class_Image new_image] not_enough_taggers [of store_AB new_image]
  by (simp add: get_taggers_def taggers_def taggers_ref_def keys_def new_image_def init_Image_def
        class_Image_def store_AB_def)

section \<open>Properties of the tag operations\<close>

lemma taggers_ref_ensure [simp]: "taggers_ref (ensure_user s i u) i = taggers_ref s i"
  by (simp add: ensure_user_def taggers_ref_def Let_def split: option.splits)

lemma ensure_user_member: "u \<in> set (get_taggers (ensure_user s i u) i)"
  by (simp add: ensure_user_def get_taggers_def taggers_def taggers_ref_def Let_def keys_setitem
        split: option.splits)

lemma ensure_user_present: "u \<in> set (get_taggers s i) \<Longrightarrow> ensure_user s i u = s"
  by (simp add: ensure_user_def)

lemma set_user_tag_present:
  assumes "u \<in> set (get_taggers s i)"
  shows "\<exists>s'. set_user_tag s i u t v = Inr s' \<and> get_taggers s' i = get_taggers s i
           \<and> read_tag s' i u t = Inr v \<and> set_user_tag s' i u t v = Inr s'"
proof -
  from assms obtain r where r: "dict_getitem (taggers s i) u = Inr r"
    using dict_getitem_in_keys by (fastforce simp: get_taggers_def)
  let ?s' = "s\<lparr>tag_dicts := (tag_dicts s)(r := dict_setitem (tag_dicts s r) t v)\<rparr>"
  have t: "taggers ?s' i = taggers s i"
    by (simp add: taggers_def taggers_ref_def split: option.splits)
  have 1: "set_user_tag s i u t v = Inr ?s'"
    by (simp add: set_user_tag_def r)
  have 2: "read_tag ?s' i u t = Inr v"
    by (simp add: read_tag_def t r)
  have 3: "set_user_tag ?s' i u t v = Inr ?s'"
    by (simp add: set_user_tag_def t r dict_setitem_twice)
  show ?thesis using 1 2 3 t by (simp add: get_taggers_def)
qed

lemma set_user_tag_ensure:
  "\<exists>s'. set_user_tag (ensure_user s i u) i u t v = Inr s' \<and> u \<in> set (get_taggers s' i)
        \<and> read_tag s' i u t = Inr v \<and> set_user_tag (ensure_user s' i u) i u t v = Inr s'"
proof -
  obtain s' where s': "set_user_tag (ensure_user s i u) i u t v = Inr s'"
      "get_taggers s' i = get_taggers (ensure_user s i u) i"
      "read_tag s' i u t = Inr v" "set_user_tag s' i u t v = Inr s'"
    using set_user_tag_present [OF ensure_user_member] by blast
  then have "u \<in> set (get_taggers s' i)" by (simp add: ensure_user_member)
  then show ?thesis using s' by (auto simp: ensure_user_present)
qed

lemma ensure_user_twice: "ensure_user (ensure_user s i u) i u = ensure_user s i u"
  by (rule ensure_user_present) (rule ensure_user_member)

text \<open>
  What \<^verbatim>\<open>add_tag\<close> does: it raises exactly when the coercion raises, and then leaves the
  user's dictionary created; else it returns, and a read gives the coerced value. In both
  cases the user is a tagger afterwards, and a second call with the same arguments ends
  as the first did.
\<close>

lemma add_tag_raises:
  "normalize c = Inl e \<Longrightarrow> add_tag s i u t c = (Inl e, ensure_user s i u)"
  by (simp add: add_tag_def)

lemma add_tag_returns:
  assumes "normalize c = Inr v"
  shows "\<exists>s'. add_tag s i u t c = (Inr (), s') \<and>
           set_user_tag (ensure_user s i u) i u t v = Inr s' \<and>
           u \<in> set (get_taggers s' i) \<and> read_tag s' i u t = Inr v \<and>
           add_tag s' i u t c = (Inr (), s')"
proof -
  obtain s' where s': "set_user_tag (ensure_user s i u) i u t v = Inr s'"
      "u \<in> set (get_taggers s' i)" "read_tag s' i u t = Inr v"
      "set_user_tag (ensure_user s' i u) i u t v = Inr s'"
    using set_user_tag_ensure [of s i u t v] by blast
  then show ?thesis using assms by (simp add: add_tag_def)
qed



lemma add_tag_read:
  "normalize c = Inr v \<Longrightarrow> read_tag (snd (add_tag s i u t c)) i u t = Inr v"
  using add_tag_returns [of c v s i u t] by auto

lemma add_tag_idempotent:
  "add_tag (snd (add_tag s i u t c)) i u t c = add_tag s i u t c"
proof (cases "normalize c")
  case (Inl e)
  then show ?thesis by (simp add: add_tag_raises ensure_user_twice)
next
  case (Inr v)
  then show ?thesis using add_tag_returns [OF Inr, of s i u t] by auto
qed

text \<open>
  C6. The claim is that a read after \<^verbatim>\<open>add_tag(u, t, v)\<close> gives the specification's
  normalization of \<open>v\<close>, for every \<open>v\<close>. In the code, after
  \<^verbatim>\<open>add_tag('A', 'damage', 'false')\<close> the read gives the text "false", where the
  specification's normalization is the boolean false.
\<close>

theorem add_tag_false_reads_text:
  "then_do (returned (add_tag class_Image new_image ''A'' ''damage'' ''false''))
     (\<lambda>s. read_tag s new_image ''A'' ''damage'') = Inr (VStr ''false'') \<and>
   normalize_spec ''false'' = VBool False"
  by code_simp

text \<open>
  With a string of 4301 digits \<^verbatim>\<open>add_tag\<close> raises \<^verbatim>\<open>ValueError\<close>: the user has become a
  tagger, and the tag is not stored.
\<close>

lemma add_tag_long_digits:
  "add_tag class_Image new_image ''A'' ''count'' long_digits =
     (Inl ValueError, ensure_user class_Image new_image ''A'') \<and>
   get_taggers (ensure_user class_Image new_image ''A'') new_image = [''A''] \<and>
   read_tag (ensure_user class_Image new_image ''A'') new_image ''A'' ''count'' = Inl KeyError"
  by (simp add: add_tag_raises [OF normalize_long_digits])
     (simp add: ensure_user_def get_taggers_def taggers_def taggers_ref_def read_tag_def
        new_image_def init_Image_def class_Image_def keys_def dict_getitem_def dict_setitem_def)

text \<open>
  C7. \<^verbatim>\<open>remove_tag\<close> never raises, whatever was or was not stored before; afterwards
  the user is a tagger and a read of \<^verbatim>\<open>taggers[u][t]\<close> finds the entry, with the value
  \<^verbatim>\<open>None\<close>.
\<close>

theorem remove_tag_tombstone:
  "\<exists>s'. remove_tag s i u t = Inr s' \<and> u \<in> set (get_taggers s' i) \<and>
        read_tag s' i u t = Inr VNone"
  using set_user_tag_ensure [of s i u t VNone]
  by (auto simp: remove_tag_def)


text \<open>A tag of a user who is already a tagger leaves that user's other tags alone.\<close>

lemma set_user_tag_other:
  "set_user_tag s i u t v = Inr s' \<Longrightarrow> t' \<noteq> t \<Longrightarrow> read_tag s' i u t' = read_tag s i u t'"
  by (auto simp: set_user_tag_def read_tag_def taggers_def taggers_ref_def
        dict_getitem_setitem_other split: sum.splits option.splits)

lemma add_tag_keeps_other_tags:
  assumes "u \<in> set (get_taggers s i)" "t' \<noteq> t"
  shows "read_tag (snd (add_tag s i u t c)) i u t' = read_tag s i u t'"
proof (cases "normalize c")
  case (Inl e)
  then show ?thesis using assms by (simp add: add_tag_raises ensure_user_present)
next
  case (Inr v)
  then show ?thesis
    using add_tag_returns [OF Inr, of s i u t] assms
    by (auto simp: ensure_user_present set_user_tag_other)
qed

lemma store_A1_reached:
  "returned (add_tag class_Image new_image ''A'' ''ok'' ''1'') = Inr store_A1"
  by (simp add: returned_def add_tag_def set_user_tag_def ensure_user_def get_taggers_def
        taggers_def taggers_ref_def new_image_def init_Image_def class_Image_def keys_def
        dict_getitem_def dict_setitem_def store_A1_def normalize_examples)

lemma saved_eq: "save store_A1 new_image = (saved_store, saved_image)"
  by (simp add: saved_store_def saved_image_def)

lemma saved_unfold:
  "saved_store = store_A1\<lparr>str_sets := (str_sets store_A1)(1 := {}),
      user_dicts := (user_dicts store_A1)(1 := [(''A'', 0)]),
      next_user_dict := 2, next_set := 2\<rparr>"
  "saved_image = new_image\<lparr>inst_skippers := Some 1, inst_taggers := Some 1\<rparr>"
  by (simp_all add: saved_store_def saved_image_def save_def Let_def skippers_def skippers_ref_def
      taggers_def taggers_ref_def store_A1_def new_image_def init_Image_def class_Image_def)





text \<open>
  C8, as claimed, fails: user A tags "ok" = "1", the image is saved, then A's tag is set
  to "2" through an image that was not saved. The saved image reads 2: its copy of
  \<^verbatim>\<open>taggers\<close> holds the same inner dictionary.
\<close>

theorem saved_image_sees_later_tag:
  "returned (add_tag class_Image new_image ''A'' ''ok'' ''1'') = Inr store_A1 \<and>
   save store_A1 new_image = (saved_store, saved_image) \<and>
   read_tag saved_store saved_image ''A'' ''ok'' = Inr (VInt 1) \<and>
   returned (add_tag saved_store new_image ''A'' ''ok'' ''2'') = Inr store_A2 \<and>
   read_tag store_A2 saved_image ''A'' ''ok'' = Inr (VInt 2)"
  by (simp add: store_A1_reached saved_eq)
     (simp add: store_A2_def saved_unfold read_tag_def returned_def add_tag_def set_user_tag_def
        ensure_user_def get_taggers_def taggers_def taggers_ref_def new_image_def
        init_Image_def keys_def dict_getitem_def dict_setitem_def store_A1_def
        normalize_examples)

section \<open>Saving an image\<close>

lemma store_ok_iff:
  "store_ok s \<longleftrightarrow>
     cls_taggers s < next_user_dict s \<and> cls_skippers s < next_set s \<and>
     (\<forall>r u r'. r < next_user_dict s \<longrightarrow> (u, r') \<in> set (user_dicts s r) \<longrightarrow>
        r' < next_tag_dict s)"
  by (auto simp: store_ok_def list_all_iff)

lemma store_ok_lookup:
  assumes "store_ok s" "tr < next_user_dict s" "dict_getitem (user_dicts s tr) u = Inr r"
  shows "r < next_tag_dict s"
proof -
  from assms(3) have "(u, r) \<in> set (user_dicts s tr)"
    by (auto simp: dict_getitem_def split: option.splits dest: map_of_SomeD)
  with assms(1,2) show ?thesis
    by (auto simp: store_ok_iff)
qed

lemma save_unfold:
  "save s i =
     (s\<lparr>str_sets := (str_sets s)(next_set s := skippers s i),
        user_dicts := (user_dicts s)(next_user_dict s := taggers s i),
        next_user_dict := Suc (next_user_dict s), next_set := Suc (next_set s)\<rparr>,
      i\<lparr>inst_skippers := Some (next_set s), inst_taggers := Some (next_user_dict s)\<rparr>)"
  by (simp add: save_def Let_def taggers_def taggers_ref_def skippers_def skippers_ref_def
      split: option.splits)

lemma set_user_tag_absent_frame:
  assumes "u \<notin> set (get_taggers s j)" "tr \<noteq> taggers_ref s j"
  shows "\<exists>s''. set_user_tag (ensure_user s j u) j u t v = Inr s'' \<and>
           user_dicts s'' tr = user_dicts s tr \<and> str_sets s'' = str_sets s \<and>
           (\<forall>r. r \<noteq> next_tag_dict s \<longrightarrow> tag_dicts s'' r = tag_dicts s r)"
  using assms
  by (simp add: set_user_tag_def ensure_user_def Let_def taggers_def taggers_ref_def
        split: option.splits)

lemma ensure_user_absent_frame:
  assumes "u \<notin> set (get_taggers s j)" "tr \<noteq> taggers_ref s j"
  shows "user_dicts (ensure_user s j u) tr = user_dicts s tr \<and>
         str_sets (ensure_user s j u) = str_sets s \<and>
         (\<forall>r. r \<noteq> next_tag_dict s \<longrightarrow> tag_dicts (ensure_user s j u) r = tag_dicts s r)"
  using assms by (simp add: ensure_user_def Let_def)

text \<open>
  Well-formedness holds when the class body has run, and \<^verbatim>\<open>add_tag\<close>, \<^verbatim>\<open>remove_tag\<close> and
  \<^verbatim>\<open>save\<close> keep it.
\<close>

lemma store_ok_class_Image:
  "store_ok class_Image \<and> image_ok class_Image (snd (init_Image s p q))"
  by (simp add: store_ok_iff image_ok_def class_Image_def init_Image_def taggers_ref_def
        skippers_ref_def)

lemma set_dict_setitem: "set (dict_setitem d k v) \<subseteq> insert (k, v) (set d)"
  unfolding dict_setitem_def by (induction d) auto

lemma store_ok_ensure_user:
  assumes "store_ok s" "image_ok s i"
  shows "store_ok (ensure_user s i u)"
proof (cases "u \<in> set (get_taggers s i)")
  case True
  then show ?thesis using assms(1) by (simp add: ensure_user_present)
next
  case False
  let ?n = "next_tag_dict s"
  let ?d = "dict_setitem (taggers s i) u ?n"
  have tr: "taggers_ref s i < next_user_dict s" using assms(2) by (simp add: image_ok_def)
  have old: "r' < ?n" if "r < next_user_dict s" "(u', r') \<in> set (user_dicts s r)" for r u' r'
    using assms(1) that by (auto simp: store_ok_iff)
  have new: "r' < Suc ?n" if "(u', r') \<in> set ?d" for u' r'
  proof -
    from that set_dict_setitem [of "taggers s i" u ?n]
    have "(u', r') = (u, ?n) \<or> (u', r') \<in> set (user_dicts s (taggers_ref s i))"
      by (auto simp: taggers_def)
    then show ?thesis using old [OF tr] by (auto simp: less_Suc_eq)
  qed
  have e: "ensure_user s i u =
      s\<lparr>tag_dicts := (tag_dicts s)(?n := []),
        user_dicts := (user_dicts s)(taggers_ref s i := ?d), next_tag_dict := Suc ?n\<rparr>"
    using False by (simp add: ensure_user_def Let_def)
  have "r' < Suc ?n"
    if "r < next_user_dict s" "(u', r') \<in> set (((user_dicts s)(taggers_ref s i := ?d)) r)"
    for r u' r'
  proof (cases "r = taggers_ref s i")
    case True
    then show ?thesis using that new by simp
  next
    case False
    then have "(u', r') \<in> set (user_dicts s r)" using that by simp
    then show ?thesis using old that(1) less_Suc_eq by blast
  qed
  then show ?thesis
    using assms(1) unfolding e store_ok_iff by simp
qed

lemma store_ok_set_user_tag:
  assumes "store_ok s" "set_user_tag s i u t v = Inr s'"
  shows "store_ok s' \<and> image_ok s' j = image_ok s j"
  using assms
  by (auto simp: set_user_tag_def store_ok_def image_ok_def taggers_ref_def skippers_ref_def
        split: sum.splits option.splits)

lemma image_ok_ensure_user: "image_ok (ensure_user s i u) j = image_ok s j"
  by (simp add: ensure_user_def image_ok_def taggers_ref_def skippers_ref_def Let_def
        split: option.splits)

lemma store_ok_add_tag:
  assumes "store_ok s" "image_ok s i"
  shows "store_ok (snd (add_tag s i u t c)) \<and>
         image_ok (snd (add_tag s i u t c)) j = image_ok s j"
proof (cases "normalize c")
  case (Inl e)
  then show ?thesis
    using store_ok_ensure_user [OF assms] by (simp add: add_tag_raises image_ok_ensure_user)
next
  case (Inr v)
  then obtain s' where s': "add_tag s i u t c = (Inr (), s')"
      "set_user_tag (ensure_user s i u) i u t v = Inr s'"
    using add_tag_returns [OF Inr, of s i u t] by blast
  show ?thesis
    using store_ok_set_user_tag [OF store_ok_ensure_user [OF assms] s'(2), of j]
    by (simp add: s'(1) image_ok_ensure_user)
qed

lemma store_ok_remove_tag:
  assumes "store_ok s" "image_ok s i" "remove_tag s i u t = Inr s'"
  shows "store_ok s' \<and> image_ok s' j = image_ok s j"
  using store_ok_set_user_tag [OF store_ok_ensure_user [OF assms(1,2)]] assms(3)
  by (simp add: remove_tag_def image_ok_ensure_user)

lemma store_ok_save:
  assumes "store_ok s" "image_ok s i" "save s i = (s', i')"
  shows "store_ok s' \<and> image_ok s' i' \<and> (image_ok s j \<longrightarrow> image_ok s' j)"
proof -
  have s': "s' = s\<lparr>str_sets := (str_sets s)(next_set s := skippers s i),
        user_dicts := (user_dicts s)(next_user_dict s := taggers s i),
        next_user_dict := Suc (next_user_dict s), next_set := Suc (next_set s)\<rparr>"
    and i': "i' = i\<lparr>inst_skippers := Some (next_set s), inst_taggers := Some (next_user_dict s)\<rparr>"
    using assms(3) by (simp_all add: save_unfold)
  have tr: "taggers_ref s i < next_user_dict s" using assms(2) by (simp add: image_ok_def)
  have old: "r' < next_tag_dict s"
    if "r < next_user_dict s" "(u', r') \<in> set (user_dicts s r)" for r u' r'
    using assms(1) that by (auto simp: store_ok_iff)
  have a: "store_ok s'"
    using assms(1) old tr unfolding s' store_ok_iff
    by (auto simp: less_Suc_eq taggers_def)
  have b: "image_ok s' i'"
    by (simp add: s' i' image_ok_def taggers_ref_def skippers_ref_def)
  have c: "image_ok s j \<longrightarrow> image_ok s' j"
    by (auto simp: s' image_ok_def taggers_ref_def skippers_ref_def split: option.splits)
  show ?thesis using a b c by simp
qed

text \<open>
  C8, amended: \<^verbatim>\<open>save\<close> gives the image a new set and a new outer dictionary with the
  entries of the old ones. Afterwards, whatever is written into the set or the outer
  dictionary that another image reads leaves the saved image's \<^verbatim>\<open>skippers\<close> and
  \<^verbatim>\<open>taggers\<close> as they were; in particular \<^verbatim>\<open>add_tag\<close>, whether it returns or raises, and
  \<^verbatim>\<open>remove_tag\<close> through another image, for a user who is not yet one of its taggers,
  change no read of the saved image.
\<close>

theorem save_copies_outer_containers:
  assumes "store_ok s" "image_ok s i" "image_ok s j" "save s i = (s', i')"
  shows "skippers s' i' = skippers s i \<and> taggers s' i' = taggers s i \<and>
         skippers (s'\<lparr>str_sets := (str_sets s')(skippers_ref s' j := X)\<rparr>) i' = skippers s' i' \<and>
         taggers (s'\<lparr>user_dicts := (user_dicts s')(taggers_ref s' j := D)\<rparr>) i' = taggers s' i' \<and>
         (u \<notin> set (get_taggers s' j) \<longrightarrow>
            (fst (add_tag s' j u t v) =
               (case normalize v of Inl e \<Rightarrow> Inl e | Inr w \<Rightarrow> Inr ()) \<and>
             skippers (snd (add_tag s' j u t v)) i' = skippers s' i' \<and>
             taggers (snd (add_tag s' j u t v)) i' = taggers s' i' \<and>
             (\<forall>u' t'. read_tag (snd (add_tag s' j u t v)) i' u' t' = read_tag s' i' u' t')) \<and>
            (\<exists>s''. remove_tag s' j u t = Inr s'' \<and> skippers s'' i' = skippers s' i' \<and>
               taggers s'' i' = taggers s' i' \<and>
               (\<forall>u' t'. read_tag s'' i' u' t' = read_tag s' i' u' t')))"
proof -
  let ?nu = "next_user_dict s"
  let ?ns = "next_set s"
  have s': "s' = s\<lparr>str_sets := (str_sets s)(?ns := skippers s i),
        user_dicts := (user_dicts s)(?nu := taggers s i),
        next_user_dict := Suc ?nu, next_set := Suc ?ns\<rparr>"
    and i': "i' = i\<lparr>inst_skippers := Some ?ns, inst_taggers := Some ?nu\<rparr>"
    using assms(4) by (simp_all add: save_unfold)
  have refs: "skippers_ref s'' i' = ?ns" "taggers_ref s'' i' = ?nu" for s''
    by (simp_all add: i' skippers_ref_def taggers_ref_def)
  have jrefs: "skippers_ref s' j = skippers_ref s j" "taggers_ref s' j = taggers_ref s j"
    by (simp_all add: s' skippers_ref_def taggers_ref_def split: option.splits)
  have jlt: "skippers_ref s j < ?ns" "taggers_ref s j < ?nu" "taggers_ref s i < ?nu"
    using assms(2,3) by (simp_all add: image_ok_def)
  have 1: "skippers s' i' = skippers s i" "taggers s' i' = taggers s i"
    by (simp_all add: skippers_def taggers_def refs) (simp_all add: s' skippers_def taggers_def)
  have 2: "skippers (s'\<lparr>str_sets := (str_sets s')(skippers_ref s' j := X)\<rparr>) i' = skippers s' i'"
    using jlt by (simp add: skippers_def skippers_ref_def i' jrefs [unfolded skippers_ref_def])
  have 3: "taggers (s'\<lparr>user_dicts := (user_dicts s')(taggers_ref s' j := D)\<rparr>) i' = taggers s' i'"
    using jlt by (simp add: taggers_def taggers_ref_def i' jrefs [unfolded taggers_ref_def])
  have ne: "?nu \<noteq> taggers_ref s' j" using jlt jrefs by simp
  have frame: "skippers s'' i' = skippers s' i' \<and> taggers s'' i' = taggers s' i' \<and>
       (\<forall>u' t'. read_tag s'' i' u' t' = read_tag s' i' u' t')"
    if s'': "user_dicts s'' ?nu = user_dicts s' ?nu" "str_sets s'' = str_sets s'"
      "\<And>r. r \<noteq> next_tag_dict s' \<Longrightarrow> tag_dicts s'' r = tag_dicts s' r" for s''
  proof -
    have a: "skippers s'' i' = skippers s' i'"
      by (simp add: skippers_def refs s''(2))
    have b: "taggers s'' i' = taggers s' i'"
      by (simp add: taggers_def refs s''(1))
    have c: "read_tag s'' i' u' t' = read_tag s' i' u' t'" for u' t'
    proof (cases "dict_getitem (taggers s' i') u'")
      case (Inl e)
      then show ?thesis by (simp add: read_tag_def b)
    next
      case (Inr r)
      then have "dict_getitem (user_dicts s (taggers_ref s i)) u' = Inr r"
        using 1(2) by (simp add: taggers_def)
      then have "r < next_tag_dict s" using store_ok_lookup [OF assms(1) jlt(3)] by blast
      then have "r \<noteq> next_tag_dict s'" by (simp add: s')
      then show ?thesis using Inr s''(3) by (simp add: read_tag_def b)
    qed
    show ?thesis using a b c by blast
  qed
  have 4: "\<exists>s''. set_user_tag (ensure_user s' j u) j u t w = Inr s'' \<and>
               skippers s'' i' = skippers s' i' \<and> taggers s'' i' = taggers s' i' \<and>
               (\<forall>u' t'. read_tag s'' i' u' t' = read_tag s' i' u' t')"
    if absent: "u \<notin> set (get_taggers s' j)" for w
  proof -
    obtain s'' where s'': "set_user_tag (ensure_user s' j u) j u t w = Inr s''"
      "user_dicts s'' ?nu = user_dicts s' ?nu" "str_sets s'' = str_sets s'"
      "\<And>r. r \<noteq> next_tag_dict s' \<Longrightarrow> tag_dicts s'' r = tag_dicts s' r"
      using set_user_tag_absent_frame [OF absent ne, of t w] by blast
    show ?thesis using s''(1) frame [OF s''(2,3,4)] by blast
  qed
  have 5: "fst (add_tag s' j u t v) =
               (case normalize v of Inl e \<Rightarrow> Inl e | Inr w \<Rightarrow> Inr ()) \<and>
             skippers (snd (add_tag s' j u t v)) i' = skippers s' i' \<and>
             taggers (snd (add_tag s' j u t v)) i' = taggers s' i' \<and>
             (\<forall>u' t'. read_tag (snd (add_tag s' j u t v)) i' u' t' = read_tag s' i' u' t')"
    if absent: "u \<notin> set (get_taggers s' j)"
  proof (cases "normalize v")
    case (Inl e)
    have "skippers (ensure_user s' j u) i' = skippers s' i' \<and>
          taggers (ensure_user s' j u) i' = taggers s' i' \<and>
          (\<forall>u' t'. read_tag (ensure_user s' j u) i' u' t' = read_tag s' i' u' t')"
      using ensure_user_absent_frame [OF absent ne] by (intro frame) simp_all
    then show ?thesis using Inl by (simp add: add_tag_raises)
  next
    case (Inr w)
    obtain s'' where s'': "set_user_tag (ensure_user s' j u) j u t w = Inr s''"
        "skippers s'' i' = skippers s' i'" "taggers s'' i' = taggers s' i'"
        "\<And>u' t'. read_tag s'' i' u' t' = read_tag s' i' u' t'"
      using 4 [OF absent, of w] by blast
    have "add_tag s' j u t v = (Inr (), s'')"
      using Inr s''(1) by (simp add: add_tag_def)
    then show ?thesis using Inr s''(2,3,4) by simp
  qed
  show ?thesis
    using 1 2 3 4 [of VNone] 5 by (simp add: remove_tag_def)
qed

theorem save_copies_outer_containers_witness:
  "store_ok store_A1 \<and> image_ok store_A1 new_image \<and>
   save store_A1 new_image = (saved_store, saved_image) \<and>
   ''B'' \<notin> set (get_taggers saved_store new_image) \<and>
   skippers saved_store saved_image = skippers store_A1 new_image \<and>
   taggers saved_store saved_image = taggers store_A1 new_image \<and>
   skippers (saved_store\<lparr>str_sets :=
       (str_sets saved_store)(skippers_ref saved_store new_image := {''Z''})\<rparr>) saved_image
     = skippers saved_store saved_image \<and>
   taggers (saved_store\<lparr>user_dicts :=
       (user_dicts saved_store)(taggers_ref saved_store new_image := [])\<rparr>) saved_image
     = taggers saved_store saved_image \<and>
   fst (add_tag saved_store new_image ''B'' ''ok'' ''2'') = Inr () \<and>
   skippers (snd (add_tag saved_store new_image ''B'' ''ok'' ''2'')) saved_image
     = skippers saved_store saved_image \<and>
   taggers (snd (add_tag saved_store new_image ''B'' ''ok'' ''2'')) saved_image
     = taggers saved_store saved_image \<and>
   (\<forall>u' t'. read_tag (snd (add_tag saved_store new_image ''B'' ''ok'' ''2'')) saved_image u' t'
      = read_tag saved_store saved_image u' t')"
proof -
  have h1: "store_ok store_A1"
    by (simp add: store_ok_def store_A1_def)
  have h2: "image_ok store_A1 new_image"
    by (simp add: image_ok_def store_A1_def new_image_def init_Image_def taggers_ref_def
          skippers_ref_def)
  have h3: "''B'' \<notin> set (get_taggers saved_store new_image)"
    by (simp add: saved_unfold get_taggers_def taggers_def taggers_ref_def keys_def
          new_image_def init_Image_def store_A1_def)
  have h4: "normalize ''2'' = Inr (VInt 2)"
    by (simp add: normalize_examples)
  show ?thesis
    using save_copies_outer_containers [OF h1 h2 h2 saved_eq,
        where X = "{''Z''}" and D = "[]" and u = "''B''" and t = "''ok''" and v = "''2''"]
      h1 h2 h3 h4 saved_eq
    by simp
qed

section \<open>Properties of the catalog listing\<close>

lemma generate_storm_list_state:
  "storm_list_last_pattern (snd (generate_storm_list re h p)) = Some p \<and>
   generate_calls (snd (generate_storm_list re h p)) = Suc (generate_calls h)"
  by (simp add: generate_storm_list_def Let_def split: sum.splits option.splits)

lemma get_storm_list_same:
  "storm_list_last_pattern h = Some p \<Longrightarrow> get_storm_list re h p = (Inr (storm_list h), h)"
  by (simp add: get_storm_list_def)

lemma get_storm_list_other:
  "storm_list_last_pattern h \<noteq> Some p \<Longrightarrow>
     snd (get_storm_list re h p) = snd (generate_storm_list re h p)"
  by (auto simp: get_storm_list_def split: prod.splits sum.splits)

lemma get_storm_list_pattern:
  "storm_list_last_pattern (snd (get_storm_list re h p)) = Some p"
  by (cases "storm_list_last_pattern h = Some p")
     (simp_all add: get_storm_list_same get_storm_list_other generate_storm_list_state)

lemma get_storm_list_Inr:
  "fst (get_storm_list re h p) = Inr l \<Longrightarrow> storm_list (snd (get_storm_list re h p)) = l"
  by (auto simp: get_storm_list_def split: if_splits prod.splits sum.splits)

text \<open>
  C9. After any call of \<^verbatim>\<open>get_storm_list\<close> with pattern \<open>p\<close>, whether it returned or
  raised, a second call with \<open>p\<close> returns the stored list, leaves the handler as it is
  and so does not call \<^verbatim>\<open>generate_storm_list\<close>; if the first call returned a list, the
  second returns the same list. The two calls together generate at most once, and not at
  all when \<open>p\<close> was already the last pattern. A call with a pattern other than the last
  one generates exactly once.
\<close>

theorem storm_list_memoized:
  "get_storm_list re (snd (get_storm_list re h p)) p =
     (Inr (storm_list (snd (get_storm_list re h p))), snd (get_storm_list re h p)) \<and>
   (\<forall>l. fst (get_storm_list re h p) = Inr l \<longrightarrow>
      fst (get_storm_list re (snd (get_storm_list re h p)) p) = Inr l) \<and>
   generate_calls (snd (get_storm_list re (snd (get_storm_list re h p)) p))
     \<le> Suc (generate_calls h) \<and>
   (storm_list_last_pattern h = Some p \<longrightarrow>
      generate_calls (snd (get_storm_list re (snd (get_storm_list re h p)) p))
        = generate_calls h) \<and>
   (storm_list_last_pattern h \<noteq> Some q \<longrightarrow>
      generate_calls (snd (get_storm_list re h q)) = Suc (generate_calls h))"
proof -
  let ?h1 = "snd (get_storm_list re h p)"
  have 1: "get_storm_list re ?h1 p = (Inr (storm_list ?h1), ?h1)"
    by (rule get_storm_list_same) (rule get_storm_list_pattern)
  have 2: "fst (get_storm_list re ?h1 p) = Inr l" if "fst (get_storm_list re h p) = Inr l" for l
    using get_storm_list_Inr [OF that] by (simp add: 1)
  have 3: "generate_calls ?h1 \<le> Suc (generate_calls h)"
    by (cases "storm_list_last_pattern h = Some p")
       (simp_all add: get_storm_list_same get_storm_list_other generate_storm_list_state)
  have 4: "generate_calls ?h1 = generate_calls h" if "storm_list_last_pattern h = Some p"
    using that by (simp add: get_storm_list_same)
  have 5: "generate_calls (snd (get_storm_list re h q)) = Suc (generate_calls h)"
    if "storm_list_last_pattern h \<noteq> Some q"
    using that by (simp add: get_storm_list_other generate_storm_list_state)
  show ?thesis using 1 2 3 4 5 by simp
qed

lemma handler0_eval:
  "handler0 = \<lparr>response_text = Some ''<html>'',
     storm_list = [\<lparr>storm_url = ''u1'', storm_id = ''florence'', storm_name = ''Hurricane Florence'', storm_year = ''2018''\<rparr>,
                   \<lparr>storm_url = ''u2'', storm_id = ''dorian'', storm_name = ''Hurricane Dorian'', storm_year = ''2019''\<rparr>],
     storm_list_last_pattern = Some ''.*'', generate_calls = 1\<rparr>"
  by (simp add: handler0_def init_ConnectionHandler_def generate_storm_list_def toy_re_def)

lemma handler0_2018:
  "get_storm_list toy_re handler0 ''2018'' =
     (Inr [\<lparr>storm_url = ''u1'', storm_id = ''florence'', storm_name = ''Hurricane Florence'',
            storm_year = ''2018''\<rparr>],
      \<lparr>response_text = Some ''<html>'',
       storm_list = [\<lparr>storm_url = ''u1'', storm_id = ''florence'',
                       storm_name = ''Hurricane Florence'', storm_year = ''2018''\<rparr>],
       storm_list_last_pattern = Some ''2018'', generate_calls = 2\<rparr>)"
  by (simp add: handler0_eval get_storm_list_def generate_storm_list_def toy_re_def)

theorem storm_list_memoized_witness:
  "storm_list_last_pattern handler0 \<noteq> Some ''2018'' \<and>
   generate_calls (snd (get_storm_list toy_re handler0 ''2018'')) = Suc (generate_calls handler0) \<and>
   fst (get_storm_list toy_re handler0 ''2018'') =
     Inr [\<lparr>storm_url = ''u1'', storm_id = ''florence'', storm_name = ''Hurricane Florence'',
           storm_year = ''2018''\<rparr>] \<and>
   fst (get_storm_list toy_re (snd (get_storm_list toy_re handler0 ''2018'')) ''2018'') =
     Inr [\<lparr>storm_url = ''u1'', storm_id = ''florence'', storm_name = ''Hurricane Florence'',
           storm_year = ''2018''\<rparr>] \<and>
   generate_calls
      (snd (get_storm_list toy_re (snd (get_storm_list toy_re handler0 ''2018'')) ''2018''))
     = Suc (generate_calls handler0) \<and>
   storm_list_last_pattern handler0 = Some ''.*'' \<and>
   generate_calls
      (snd (get_storm_list toy_re (snd (get_storm_list toy_re handler0 ''.*'')) ''.*''))
     = generate_calls handler0"
proof -
  have a: "storm_list_last_pattern handler0 \<noteq> Some ''2018''"
      "storm_list_last_pattern handler0 = Some ''.*''"
    by (simp_all add: handler0_eval)
  have b: "fst (get_storm_list toy_re handler0 ''2018'') =
     Inr [\<lparr>storm_url = ''u1'', storm_id = ''florence'', storm_name = ''Hurricane Florence'',
           storm_year = ''2018''\<rparr>]"
    by (simp add: handler0_2018)
  let ?h1 = "snd (get_storm_list toy_re handler0 ''2018'')"
  note m1 = storm_list_memoized [of toy_re handler0 "''2018''" "''2018''"]
  note m2 = storm_list_memoized [of toy_re handler0 "''.*''" "''2018''"]
  have c: "generate_calls ?h1 = Suc (generate_calls handler0)"
    using m1 a(1) by blast
  have d: "fst (get_storm_list toy_re ?h1 ''2018'') = fst (get_storm_list toy_re handler0 ''2018'')"
    using m1 b by metis
  have e: "snd (get_storm_list toy_re ?h1 ''2018'') = ?h1"
    using m1 by simp
  have f: "generate_calls
      (snd (get_storm_list toy_re (snd (get_storm_list toy_re handler0 ''.*'')) ''.*''))
     = generate_calls handler0"
    using m2 a(2) by blast
  show ?thesis
    using a b c d e f by simp
qed

section \<open>Properties of the archive download\<close>

text \<open>
  C10. With \<^verbatim>\<open>overwrite=True\<close>, \<^verbatim>\<open>download_url\<close> returns without an exception, the files
  and the output are as before, whatever the retriever would do, and only
  \<^verbatim>\<open>tar_file_path\<close> is assigned.
\<close>

theorem overwrite_downloads_nothing:
  "download_url urlretrieve w t dir True =
     (Inr (), w, t\<lparr>tar_file_path := Some (dir @ tar_file_name t @ ''.tar'')\<rparr>)"
  by (simp add: download_url_def Let_def)

text \<open>Without \<^verbatim>\<open>overwrite\<close>: a message if the file exists, else the retrieval.\<close>

lemma download_url_no_overwrite:
  "download_url urlretrieve w t dir False =
     (if files w (dir @ tar_file_name t @ ''.tar'') \<noteq> None
      then (Inr (), w\<lparr>printed := printed w @
               [''A file at '' @ dir @ tar_file_name t @ ''.tar'' @ '' already exists'']\<rparr>,
            t\<lparr>tar_file_path := Some (dir @ tar_file_name t @ ''.tar'')\<rparr>)
      else (fst (urlretrieve w (tar_url t) (dir @ tar_file_name t @ ''.tar'')),
            snd (urlretrieve w (tar_url t) (dir @ tar_file_name t @ ''.tar'')),
            t\<lparr>tar_file_path := Some (dir @ tar_file_name t @ ''.tar'')\<rparr>))"
  by (simp add: download_url_def Let_def split: prod.splits)

theorem overwrite_downloads_nothing_witness:
  "download_url toy_retrieve world0 tar0 ''cache/'' True =
     (Inr (), world0, tar0\<lparr>tar_file_path := Some ''cache/a.tar''\<rparr>) \<and>
   files world0 ''cache/a.tar'' = Some ''old''"
  using overwrite_downloads_nothing [of toy_retrieve world0 tar0 "''cache/''"]
  by (simp add: tar0_def world0_def)

lemma download_new_file:
  "download_url toy_retrieve world0 tar0 ''fresh/'' False =
     (Inr (), world0\<lparr>files := (files world0)(''fresh/a.tar'' := Some ''https://host/x/a.tar'')\<rparr>,
      tar0\<lparr>tar_file_path := Some ''fresh/a.tar''\<rparr>)"
  by (simp add: download_url_no_overwrite toy_retrieve_def tar0_def world0_def)

end
